theory Spec2Isabelle
  imports Main "HOL-Library.Word" "HOL-Library.Monad_Syntax"
begin

section \<open>Strings\<close>

text \<open>
  The program is TypeScript running on GJS.  A JavaScript string is a sequence of
  UTF-16 code units: \<open>length\<close>, \<open>split\<close>, \<open>trim\<close> and a regular expression without
  the \<open>u\<close> flag all work on code units.  A string is therefore a list of 16-bit words;
  \<open>js\<close> turns an (ASCII) literal into one.
\<close>

type_synonym code_unit = "16 word"
type_synonym jsstring = "code_unit list"

definition js :: "string \<Rightarrow> jsstring" where
  "js s = map of_char s"

definition NUL :: code_unit where "NUL = 0x00"
definition LF :: code_unit where "LF = 0x0A"
definition SPACE :: code_unit where "SPACE = 0x20"
definition LPAREN :: code_unit where "LPAREN = 0x28"
definition RPAREN :: code_unit where "RPAREN = 0x29"
definition HYPHEN :: code_unit where "HYPHEN = 0x2D"
definition BAR :: code_unit where "BAR = 0x7C"

text \<open>
  ECMAScript's \<open>\s\<close> and the characters \<open>String.prototype.trim\<close> strips are the same
  set: WhiteSpace (TAB, VT, FF, ZWNBSP and the Unicode space separators) together with
  LineTerminator (LF, CR, LS, PS).  NUL is not in it.
\<close>

definition is_line_terminator :: "code_unit \<Rightarrow> bool" where
  "is_line_terminator c = (c \<in> set [0x0A, 0x0D, 0x2028, 0x2029])"

definition is_space :: "code_unit \<Rightarrow> bool" where
  "is_space c = (c \<in> set [0x09, 0x0A, 0x0B, 0x0C, 0x0D, 0x20, 0xA0, 0x1680,
     0x2000, 0x2001, 0x2002, 0x2003, 0x2004, 0x2005, 0x2006, 0x2007, 0x2008, 0x2009, 0x200A,
     0x2028, 0x2029, 0x202F, 0x205F, 0x3000, 0xFEFF])"

text \<open>\<open>s.trim()\<close>\<close>

definition trim :: "jsstring \<Rightarrow> jsstring" where
  "trim s = rev (dropWhile is_space (rev (dropWhile is_space s)))"

text \<open>
  \<open>s.split(sep)\<close> for a separator that matches exactly one code unit (the string \<open>'|'\<close>,
  the class \<open>/[\n\0]/\<close>): one piece more than there are separators, so the empty string
  gives one empty piece.
\<close>

fun split_on :: "(code_unit \<Rightarrow> bool) \<Rightarrow> jsstring \<Rightarrow> jsstring list" where
  "split_on p [] = [[]]"
| "split_on p (c # cs) =
     (if p c then [] # split_on p cs
      else (case split_on p cs of [] \<Rightarrow> [[c]] | w # ws \<Rightarrow> (c # w) # ws))"

text \<open>\<open>xs.join(sep)\<close>\<close>

fun join :: "jsstring \<Rightarrow> jsstring list \<Rightarrow> jsstring" where
  "join sep [] = []"
| "join sep [x] = x"
| "join sep (x # y # ys) = x @ sep @ join sep (y # ys)"

section \<open>The line pattern\<close>

text \<open>
  \<open>line.match(/^([^\s]+)\s*\(([^)]+)\)\s*-\s*(.+)/)\<close>.  The matcher is the backtracking
  one of ECMAScript, written as lists of successes in the order the engine tries them:
  a greedy repetition of a character class offers its longest run first and then every
  shorter one down to its minimum; the match is the first success.  Each success carries
  the text it consumed and the rest of the input.
\<close>

definition greedy :: "nat \<Rightarrow> (code_unit \<Rightarrow> bool) \<Rightarrow> jsstring \<Rightarrow> (jsstring \<times> jsstring) list" where
  "greedy m P s = map (\<lambda>k. (take k s, drop k s)) (rev [m ..< Suc (length (takeWhile P s))])"

definition lit :: "code_unit \<Rightarrow> jsstring \<Rightarrow> jsstring list" where
  "lit c s = (case s of [] \<Rightarrow> [] | x # t \<Rightarrow> if x = c then [t] else [])"

type_synonym ManPageMetaInfo = "jsstring \<times> jsstring \<times> jsstring"

definition match_all :: "jsstring \<Rightarrow> ManPageMetaInfo list" where
  "match_all line = do {
     (pageName, s1) \<leftarrow> greedy 1 (\<lambda>c. \<not> is_space c) line;
     (w1, s2) \<leftarrow> greedy 0 is_space s1;
     s3 \<leftarrow> lit LPAREN s2;
     (section, s4) \<leftarrow> greedy 1 (\<lambda>c. c \<noteq> RPAREN) s3;
     s5 \<leftarrow> lit RPAREN s4;
     (w2, s6) \<leftarrow> greedy 0 is_space s5;
     s7 \<leftarrow> lit HYPHEN s6;
     (w3, s8) \<leftarrow> greedy 0 is_space s7;
     (description, s9) \<leftarrow> greedy 1 (\<lambda>c. \<not> is_line_terminator c) s8;
     [(pageName, section, description)]
   }"

definition match_line :: "jsstring \<Rightarrow> ManPageMetaInfo option" where
  "match_line line = (case match_all line of [] \<Rightarrow> None | m # ms \<Rightarrow> Some m)"

section \<open>The environment\<close>

text \<open>
  \<open>Gio.Cancellable\<close> is set by GNOME Shell from another thread, at any moment.  The
  token is the sequence of answers \<open>is_cancelled()\<close> gives: the state counts the calls
  made so far and the \<open>k\<close>-th call reads the token at \<open>k\<close>.  An absent token
  (\<open>cancellable?.is_cancelled()\<close> on \<open>undefined\<close>) answers no and is not counted.

  The state also logs the argument vector of every \<open>Gio.Subprocess.new\<close>.  Console
  output and \<open>force_exit()\<close> in the \<open>finally\<close> block act on the journal and on the child
  only and are left out.
\<close>

type_synonym cancellable = "nat \<Rightarrow> bool"

record state =
  checks :: nat
  spawned :: "jsstring list list"

definition is_cancelled :: "cancellable option \<Rightarrow> state \<Rightarrow> bool \<times> state" where
  "is_cancelled c st =
     (case c of None \<Rightarrow> (False, st)
      | Some tok \<Rightarrow> (tok (checks st), st\<lparr>checks := Suc (checks st)\<rparr>))"

text \<open>
  GLib and Gio are not part of the repository; what they answer is a parameter.
  GJS turns a \<open>GError\<close> into a thrown exception, so \<open>GLib.shell_parse_argv\<close> either
  returns the pair \<open>[success, argv]\<close> or throws, \<open>Gio.Subprocess.new\<close> either returns the
  child or throws, and the promise of \<open>communicate_utf8_async\<close> either resolves to
  \<open>[stdout, stderr]\<close> or rejects, with \<open>Gio.IOErrorEnum.CANCELLED\<close> or with something else.
  The child's behaviour may depend on how many children were started before it.
\<close>

datatype exn = CancelledError | ShellError | SpawnError

datatype parse_result = ParseReturns bool "jsstring list option" | ParseThrows

datatype communicate_result =
  CommReturns jsstring jsstring
| CommRejectsCancelled
| CommRejectsOther

datatype spawn_result = Spawned communicate_result | SpawnThrows

record env =
  shell_parse_argv :: "jsstring \<Rightarrow> parse_result"
  subprocess_new :: "nat \<Rightarrow> jsstring list \<Rightarrow> spawn_result"

section \<open>SearchEngine\<close>

subsection \<open>parseOutput\<close>

text \<open>\<open>output.trim().split(/[\n\0]/).filter(line => line.trim())\<close>\<close>

definition lines_of :: "jsstring \<Rightarrow> jsstring list" where
  "lines_of output =
     filter (\<lambda>line. trim line \<noteq> []) (split_on (\<lambda>c. c = LF \<or> c = NUL) (trim output))"

text \<open>
  The body of the \<open>for\<close> loop first matches the line and pushes its tuple, then asks the
  token.  What one line contributes: \<open>[pageName.trim(), section.trim(), description.trim()]\<close>
  when it matches, nothing (a warning on the console) when it does not.
\<close>

definition tuple_of :: "jsstring \<Rightarrow> ManPageMetaInfo option" where
  "tuple_of line =
     (case match_line line of
        None \<Rightarrow> None
      | Some (pageName, section, description) \<Rightarrow>
          Some (trim pageName, trim section, trim description))"

definition push_line :: "ManPageMetaInfo list \<Rightarrow> jsstring \<Rightarrow> ManPageMetaInfo list" where
  "push_line results line =
     (case tuple_of line of Some t \<Rightarrow> results @ [t] | None \<Rightarrow> results)"

fun parse_loop ::
  "cancellable option \<Rightarrow> jsstring list \<Rightarrow> ManPageMetaInfo list \<Rightarrow> state
     \<Rightarrow> (exn + ManPageMetaInfo list) \<times> state" where
  "parse_loop c [] results st = (Inr results, st)"
| "parse_loop c (line # lines) results st =
     (let results' = push_line results line in
      case is_cancelled c st of
        (True, st') \<Rightarrow> (Inl CancelledError, st')
      | (False, st') \<Rightarrow> parse_loop c lines results' st')"

definition parseOutput ::
  "jsstring \<Rightarrow> cancellable option \<Rightarrow> state \<Rightarrow> (exn + ManPageMetaInfo list) \<times> state" where
  "parseOutput output c st =
     (case is_cancelled c st of
        (True, st1) \<Rightarrow> (Inl CancelledError, st1)
      | (False, st1) \<Rightarrow> parse_loop c (lines_of output) [] st1)"

subsection \<open>runSubprocess\<close>

text \<open>
  The tokenizer and \<open>Gio.Subprocess.new\<close> are called before the \<open>try\<close> block: what they
  throw leaves \<open>runSubprocess\<close>.  Inside the \<open>try\<close>, a rejected \<open>communicate_utf8_async\<close>
  and the \<open>CancelledError\<close> of \<open>parseOutput\<close> are caught and become \<open>null\<close>.
\<close>

definition runSubprocess ::
  "env \<Rightarrow> jsstring \<Rightarrow> cancellable option \<Rightarrow> state
     \<Rightarrow> (exn + ManPageMetaInfo list option) \<times> state" where
  "runSubprocess e command c st =
     (case is_cancelled c st of
        (True, st1) \<Rightarrow> (Inr None, st1)
      | (False, st1) \<Rightarrow>
         (case shell_parse_argv e command of
            ParseThrows \<Rightarrow> (Inl ShellError, st1)
          | ParseReturns success None \<Rightarrow> (Inr None, st1)
          | ParseReturns success (Some argv) \<Rightarrow>
              if \<not> success then (Inr None, st1)
              else
                (let st2 = st1\<lparr>spawned := spawned st1 @ [argv]\<rparr> in
                 case subprocess_new e (length (spawned st1)) argv of
                   SpawnThrows \<Rightarrow> (Inl SpawnError, st2)
                 | Spawned CommRejectsCancelled \<Rightarrow> (Inr None, st2)
                 | Spawned CommRejectsOther \<Rightarrow> (Inr None, st2)
                 | Spawned (CommReturns stdout stderr) \<Rightarrow>
                     (case parseOutput stdout c st2 of
                        (Inl err, st3) \<Rightarrow> (Inr None, st3)
                      | (Inr results, st3) \<Rightarrow> (Inr (Some results), st3)))))"

subsection \<open>searchManPages\<close>

definition apropos_command :: "jsstring list \<Rightarrow> jsstring" where
  "apropos_command terms = js ''apropos --and '' @ join [SPACE] terms"

definition identifier_of :: "ManPageMetaInfo \<Rightarrow> jsstring" where
  "identifier_of t = (case t of (pageName, section, description) \<Rightarrow> section @ [BAR] @ pageName)"

definition searchManPages ::
  "env \<Rightarrow> jsstring list \<Rightarrow> cancellable option \<Rightarrow> state \<Rightarrow> (exn + jsstring list) \<times> state" where
  "searchManPages e terms c st =
     (case is_cancelled c st of
        (True, st1) \<Rightarrow> (Inr [], st1)
      | (False, st1) \<Rightarrow>
         (case runSubprocess e (apropos_command terms) c st1 of
            (Inl err, st2) \<Rightarrow> (Inl err, st2)
          | (Inr None, st2) \<Rightarrow> (Inr [], st2)
          | (Inr (Some parsedResults), st2) \<Rightarrow>
              if parsedResults = [] then (Inr [], st2)
              else
                (case is_cancelled c st2 of
                   (True, st3) \<Rightarrow> (Inr [], st3)
                 | (False, st3) \<Rightarrow>
                    (let identifiers = map identifier_of parsedResults in
                     case is_cancelled c st3 of
                       (True, st4) \<Rightarrow> (Inr [], st4)
                     | (False, st4) \<Rightarrow> (Inr identifiers, st4)))))"

subsection \<open>getPageInfo\<close>

definition whatis_command :: "jsstring \<Rightarrow> jsstring" where
  "whatis_command identifier =
     js ''whatis -l -s '' @ join [SPACE] (split_on (\<lambda>c. c = BAR) identifier)"

definition title_of :: "ManPageMetaInfo \<Rightarrow> jsstring" where
  "title_of t = (case t of (pageName, section, description) \<Rightarrow>
     pageName @ [SPACE, LPAREN] @ section @ [RPAREN])"

definition getPageInfo ::
  "env \<Rightarrow> jsstring \<Rightarrow> cancellable option \<Rightarrow> state
     \<Rightarrow> (exn + (jsstring \<times> jsstring) option) \<times> state" where
  "getPageInfo e identifier c st =
     (case is_cancelled c st of
        (True, st1) \<Rightarrow> (Inr None, st1)
      | (False, st1) \<Rightarrow>
         (case runSubprocess e (whatis_command identifier) c st1 of
            (Inl err, st2) \<Rightarrow> (Inl err, st2)
          | (Inr None, st2) \<Rightarrow> (Inr None, st2)
          | (Inr (Some []), st2) \<Rightarrow> (Inr None, st2)
          | (Inr (Some (pageInfoTuple # rest)), st2) \<Rightarrow>
              (case is_cancelled c st2 of
                 (True, st3) \<Rightarrow> (Inr None, st3)
               | (False, st3) \<Rightarrow>
                  (case is_cancelled c st3 of
                     (True, st4) \<Rightarrow> (Inr None, st4)
                   | (False, st4) \<Rightarrow>
                       (Inr (Some (title_of pageInfoTuple, snd (snd pageInfoTuple))), st4)))))"

section \<open>SearchProvider\<close>

text \<open>\<open>ResultMeta\<close>, without the \<open>createIcon\<close> callback (a widget factory).\<close>

record ResultMeta =
  meta_id :: jsstring
  meta_name :: jsstring
  meta_description :: jsstring

text \<open>\<open>(terms[0]?.length ?? 0)\<close>\<close>

definition first_term_length :: "jsstring list \<Rightarrow> nat" where
  "first_term_length terms = (case terms of [] \<Rightarrow> 0 | t # ts \<Rightarrow> length t)"

definition getInitialResultSet ::
  "env \<Rightarrow> jsstring list \<Rightarrow> cancellable \<Rightarrow> state \<Rightarrow> (exn + jsstring list) \<times> state" where
  "getInitialResultSet e terms tok st =
     (case is_cancelled (Some tok) st of
        (True, st1) \<Rightarrow> (Inr [], st1)
      | (False, st1) \<Rightarrow>
          if first_term_length terms < 2 then (Inr [], st1)
          else
            (case searchManPages e terms (Some tok) st1 of
               (Inl err, st2) \<Rightarrow> (Inl err, st2)
             | (Inr resultIdentifiers, st2) \<Rightarrow>
                 (case is_cancelled (Some tok) st2 of
                    (True, st3) \<Rightarrow> (Inr [], st3)
                  | (False, st3) \<Rightarrow> (Inr resultIdentifiers, st3))))"

definition filterResults :: "jsstring list \<Rightarrow> int \<Rightarrow> jsstring list" where
  "filterResults identifiers maxResults =
     (let ourMax = 7 in
      if length identifiers \<le> ourMax then identifiers else take ourMax identifiers)"

text \<open>
  The \<open>for\<close> loop of \<open>getResultMetas\<close>.  It is left either by a \<open>return []\<close> or an
  exception inside the body, which ends the function, or at the end of the list with
  the metadata built so far.
\<close>

datatype loop_exit = Returned "exn + ResultMeta list" | Completed "ResultMeta list"

fun metas_for ::
  "env \<Rightarrow> jsstring list \<Rightarrow> cancellable \<Rightarrow> ResultMeta list \<Rightarrow> state \<Rightarrow> loop_exit \<times> state" where
  "metas_for e [] tok resultMetas st = (Completed resultMetas, st)"
| "metas_for e (identifier # identifiers) tok resultMetas st =
     (case is_cancelled (Some tok) st of
        (True, st1) \<Rightarrow> (Returned (Inr []), st1)
      | (False, st1) \<Rightarrow>
         (case getPageInfo e identifier (Some tok) st1 of
            (Inl err, st2) \<Rightarrow> (Returned (Inl err), st2)
          | (Inr None, st2) \<Rightarrow> (Returned (Inr []), st2)
          | (Inr (Some (name, description)), st2) \<Rightarrow>
              metas_for e identifiers tok
                (resultMetas @
                   [\<lparr>meta_id = identifier, meta_name = name, meta_description = description\<rparr>])
                st2))"

definition getResultMetas ::
  "env \<Rightarrow> jsstring list \<Rightarrow> cancellable \<Rightarrow> state \<Rightarrow> (exn + ResultMeta list) \<times> state" where
  "getResultMetas e identifiers tok st =
     (case is_cancelled (Some tok) st of
        (True, st1) \<Rightarrow> (Inr [], st1)
      | (False, st1) \<Rightarrow>
         (case metas_for e identifiers tok [] st1 of
            (Returned r, st2) \<Rightarrow> (r, st2)
          | (Completed resultMetas, st2) \<Rightarrow>
              (case is_cancelled (Some tok) st2 of
                 (True, st3) \<Rightarrow> (Inr [], st3)
               | (False, st3) \<Rightarrow> (Inr resultMetas, st3))))"

section \<open>Observations and sample environments\<close>

text \<open>
  \<open>observed tok st st'\<close>: one of the \<open>is_cancelled()\<close> calls made between the states
  \<open>st\<close> and \<open>st'\<close> found the token set.
\<close>

definition observed :: "cancellable \<Rightarrow> state \<Rightarrow> state \<Rightarrow> bool" where
  "observed tok st st' = list_ex tok [checks st ..< checks st']"

definition initial :: state where
  "initial = \<lparr>checks = 0, spawned = []\<rparr>"

text \<open>
  A command line without quoting or escapes is cut at its blanks by
  \<open>GLib.shell_parse_argv\<close>; one with an unterminated quotation is rejected with a
  \<open>GLib.ShellError\<close>.  The sample environments tokenize so.  \<open>answering out\<close> runs every
  command and gives \<open>out\<close> on standard output; \<open>no_such_program\<close> has neither \<open>apropos\<close> nor
  \<open>whatis\<close> installed, so that \<open>Gio.Subprocess.new\<close> fails.
\<close>

definition QUOTE :: code_unit where "QUOTE = 0x27"

definition tokenize :: "jsstring \<Rightarrow> parse_result" where
  "tokenize command =
     (if odd (length (filter (\<lambda>c. c = QUOTE) command)) then ParseThrows
      else ParseReturns True
        (Some (filter (\<lambda>w. w \<noteq> []) (split_on (\<lambda>c. c = SPACE) command))))"

definition answering :: "jsstring \<Rightarrow> env" where
  "answering out =
     \<lparr>shell_parse_argv = tokenize, subprocess_new = (\<lambda>n argv. Spawned (CommReturns out []))\<rparr>"

definition no_such_program :: env where
  "no_such_program = \<lparr>shell_parse_argv = tokenize, subprocess_new = (\<lambda>n argv. SpawnThrows)\<rparr>"

text \<open>\<open>answering_in_turn outs\<close>: the \<open>n\<close>-th child started prints \<open>outs ! n\<close>.\<close>

definition answering_in_turn :: "jsstring list \<Rightarrow> env" where
  "answering_in_turn outs =
     \<lparr>shell_parse_argv = tokenize,
      subprocess_new = (\<lambda>n argv. Spawned (CommReturns (if n < length outs then outs ! n else []) []))\<rparr>"

section \<open>Splitting and joining\<close>

lemma split_on_not_Nil: "split_on p s \<noteq> []"
  by (induction s) (auto split: list.splits)

lemma split_on_no_separator: "list_all (\<lambda>c. \<not> p c) s \<Longrightarrow> split_on p s = [s]"
  by (induction s) auto

lemma split_on_separator:
  "p x \<Longrightarrow> split_on p (a @ x # b) = split_on p a @ split_on p b"
proof (induction a)
  case Nil
  then show ?case by simp
next
  case (Cons c a)
  obtain w ws where "split_on p a = w # ws"
    using split_on_not_Nil [of p a] by (cases "split_on p a") auto
  with Cons show ?case by simp
qed

lemma split_identifier:
  assumes "BAR \<notin> set section" "BAR \<notin> set pageName"
  shows "split_on (\<lambda>c. c = BAR) (section @ BAR # pageName) = [section, pageName]"
proof -
  have "list_all (\<lambda>c. c \<noteq> BAR) section" "list_all (\<lambda>c. c \<noteq> BAR) pageName"
    using assms by (auto simp: list_all_iff)
  then show ?thesis
    by (simp add: split_on_separator split_on_no_separator)
qed

section \<open>Truncation of the result list\<close>

text \<open>
  C3.  \<open>filterResults\<close> returns the first \<open>min 7 (length identifiers)\<close> identifiers of
  its input, unchanged and in order, whatever maximum the Shell suggests.
\<close>

theorem filterResults_prefix:
  "filterResults identifiers maxResults = take (min 7 (length identifiers)) identifiers"
  by (simp add: filterResults_def)

section \<open>Identifiers\<close>

text \<open>
  C6.  The identifier \<open>searchManPages\<close> derives from a tuple whose page name and section
  are free of \<open>|\<close> splits on \<open>|\<close> into exactly the section and the page name, in this
  order, as \<open>getPageInfo\<close> splits it.
\<close>

theorem identifier_round_trip:
  "BAR \<notin> set pageName \<Longrightarrow> BAR \<notin> set section \<Longrightarrow>
   split_on (\<lambda>c. c = BAR) (identifier_of (pageName, section, description)) = [section, pageName]"
  by (simp add: identifier_of_def split_identifier)

theorem identifier_round_trip_witness:
  "BAR \<notin> set (js ''printf'') \<and> BAR \<notin> set (js ''1'') \<and>
   identifier_of (js ''printf'', js ''1'', js ''format and print data'') = js ''1|printf'' \<and>
   split_on (\<lambda>c. c = BAR) (js ''1|printf'') = [js ''1'', js ''printf'']"
proof -
  have a: "BAR \<notin> set (js ''printf'')" by code_simp
  have b: "BAR \<notin> set (js ''1'')" by code_simp
  have c: "identifier_of (js ''printf'', js ''1'', js ''format and print data'') = js ''1|printf''"
    by code_simp
  from identifier_round_trip [OF a b, of "js ''format and print data''"] c a b
  show ?thesis by simp
qed

text \<open>
  C2, as the claim has it: the command line of \<open>getPageInfo\<close> would name the page before
  the section.  For the identifier \<open>1|ls\<close> the code builds \<open>whatis -l -s 1 ls\<close>, not
  \<open>whatis -l -s ls 1\<close>.
\<close>

theorem whatis_command_name_first_counterexample:
  "whatis_command (js ''1|ls'') = js ''whatis -l -s 1 ls'' \<and>
   whatis_command (js ''1|ls'') \<noteq> js ''whatis -l -s ls 1''"
  by code_simp

text \<open>
  C2, amended.  For an identifier \<open>section|name\<close> whose section and name are free of
  \<open>|\<close>, the command line of \<open>getPageInfo\<close> is \<open>whatis -l -s <section> <name>\<close>: the
  section, which is the argument of \<open>-s\<close>, comes before the name.
\<close>

theorem whatis_command_section_first:
  "BAR \<notin> set section \<Longrightarrow> BAR \<notin> set pageName \<Longrightarrow>
   whatis_command (section @ [BAR] @ pageName) = js ''whatis -l -s '' @ section @ [SPACE] @ pageName"
  by (simp add: whatis_command_def split_identifier)

theorem whatis_command_section_first_witness:
  "BAR \<notin> set (js ''1'') \<and> BAR \<notin> set (js ''ls'') \<and>
   whatis_command (js ''1'' @ [BAR] @ js ''ls'') = js ''whatis -l -s 1 ls''"
proof -
  have a: "BAR \<notin> set (js ''1'')" by code_simp
  have b: "BAR \<notin> set (js ''ls'')" by code_simp
  have c: "js ''whatis -l -s '' @ js ''1'' @ [SPACE] @ js ''ls'' = js ''whatis -l -s 1 ls''"
    by code_simp
  from whatis_command_section_first [OF a b] a b c show ?thesis by simp
qed

section \<open>The parser\<close>

lemma is_cancelled_never:
  "\<forall>k. \<not> tok k \<Longrightarrow> is_cancelled (Some tok) st = (False, st\<lparr>checks := Suc (checks st)\<rparr>)"
  by (simp add: is_cancelled_def)

lemma push_line_append:
  "push_line results line = results @ List.map_filter tuple_of [line]"
  by (simp add: push_line_def List.map_filter_simps split: option.splits)


lemma parse_loop_never:
  "\<forall>k. \<not> tok k \<Longrightarrow>
   parse_loop (Some tok) lines results st =
     (Inr (results @ List.map_filter tuple_of lines), st\<lparr>checks := checks st + length lines\<rparr>)"
proof (induction lines arbitrary: results st)
  case Nil
  then show ?case by (simp add: List.map_filter_simps)
next
  case (Cons line lines)
  then show ?case
    by (simp add: is_cancelled_never push_line_append List.map_filter_simps split: option.splits)
qed

lemma parseOutput_never:
  "\<forall>k. \<not> tok k \<Longrightarrow>
   parseOutput output (Some tok) st =
     (Inr (List.map_filter tuple_of (lines_of output)),
      st\<lparr>checks := Suc (checks st + length (lines_of output))\<rparr>)"
  by (simp add: parseOutput_def is_cancelled_never parse_loop_never)



section \<open>Separators\<close>

lemma bind_not_Nil: "List.bind xs f \<noteq> [] \<Longrightarrow> xs \<noteq> []"
  by (cases xs) simp_all

lemma greedy_one_head: "greedy (Suc 0) P s \<noteq> [] \<Longrightarrow> s \<noteq> [] \<and> P (hd s)"
  by (cases s) (auto simp: greedy_def split: if_splits)

lemma match_line_head:
  assumes "match_line line \<noteq> None"
  shows "line \<noteq> [] \<and> \<not> is_space (hd line)"
proof -
  have "match_all line \<noteq> []"
    using assms by (auto simp: match_line_def)
  then have "greedy 1 (\<lambda>c. \<not> is_space c) line \<noteq> []"
    unfolding match_all_def by (rule bind_not_Nil)
  then show ?thesis
    using greedy_one_head [of "\<lambda>c. \<not> is_space c" line] by simp
qed

lemma join_Cons: "ls \<noteq> [] \<Longrightarrow> join sep (l # ls) = l @ sep @ join sep ls"
  by (cases ls) simp_all

lemma join_head: "ls \<noteq> [] \<Longrightarrow> hd ls \<noteq> [] \<Longrightarrow> join sep ls \<noteq> [] \<and> hd (join sep ls) = hd (hd ls)"
  by (induction sep ls rule: join.induct) auto

lemma join_last_subset: "ls \<noteq> [] \<Longrightarrow> set (last ls) \<subseteq> set (join sep ls)"
  by (induction sep ls rule: join.induct) auto

lemma trim_end_append:
  "x \<in> set b \<Longrightarrow> \<not> is_space x \<Longrightarrow>
   rev (dropWhile is_space (rev (a @ b))) = a @ rev (dropWhile is_space (rev b))"
  by simp

lemma trim_end_join:
  "ls \<noteq> [] \<Longrightarrow> x \<in> set (last ls) \<Longrightarrow> \<not> is_space x \<Longrightarrow>
   rev (dropWhile is_space (rev (join sep ls))) =
     join sep (butlast ls @ [rev (dropWhile is_space (rev (last ls)))])"
proof (induction sep ls rule: join.induct)
  case (1 sep)
  then show ?case by simp
next
  case (2 sep l)
  then show ?case by simp
next
  case (3 sep l y ys)
  have "x \<in> set (join sep (y # ys))"
    using 3(3) join_last_subset [of "y # ys" sep] by auto
  then have "rev (dropWhile is_space (rev ((l @ sep) @ join sep (y # ys)))) =
      (l @ sep) @ rev (dropWhile is_space (rev (join sep (y # ys))))"
    using 3(4) by (rule trim_end_append)
  moreover have "rev (dropWhile is_space (rev (join sep (y # ys)))) =
      join sep (butlast (y # ys) @ [rev (dropWhile is_space (rev (last (y # ys))))])"
    using 3 by simp
  ultimately show ?case
    by (simp add: join_Cons)
qed

lemma trim_join:
  assumes "ls \<noteq> []" and "list_all (\<lambda>l. l \<noteq> [] \<and> \<not> is_space (hd l)) ls"
  shows "trim (join sep ls) = join sep (butlast ls @ [rev (dropWhile is_space (rev (last ls)))])"
proof -
  have first: "hd ls \<noteq> [] \<and> \<not> is_space (hd (hd ls))"
    using assms by (cases ls) simp_all
  have "last ls \<in> set ls" using assms(1) by simp
  then have lst: "last ls \<noteq> [] \<and> \<not> is_space (hd (last ls))"
    using assms(2) by (auto simp: list_all_iff)
  have "join sep ls \<noteq> [] \<and> \<not> is_space (hd (join sep ls))"
    using join_head [of ls sep] assms(1) first by simp
  then have "dropWhile is_space (join sep ls) = join sep ls"
    by (cases "join sep ls") simp_all
  moreover have "hd (last ls) \<in> set (last ls)" using lst by simp
  ultimately show ?thesis
    using trim_end_join [of ls "hd (last ls)" sep] assms(1) lst by (simp add: trim_def)
qed

lemma split_on_join:
  "p x \<Longrightarrow> ls \<noteq> [] \<Longrightarrow> split_on p (join [x] ls) = concat (map (split_on p) ls)"
proof (induction "[x]" ls rule: join.induct)
  case 1
  then show ?case by simp
next
  case (2 l)
  then show ?case by simp
next
  case (3 l y ys)
  then show ?case by (simp add: split_on_separator)
qed

lemma lines_of_join:
  assumes "list_all (\<lambda>l. match_line l \<noteq> None) ls"
  shows "lines_of (join [LF] ls) = lines_of (join [NUL] ls)"
proof (cases "ls = []")
  case True
  then show ?thesis by simp
next
  case False
  have heads: "list_all (\<lambda>l. l \<noteq> [] \<and> \<not> is_space (hd l)) ls"
    using assms match_line_head by (auto simp: list_all_iff)
  let ?ls = "butlast ls @ [rev (dropWhile is_space (rev (last ls)))]"
  have "split_on (\<lambda>c. c = LF \<or> c = NUL) (join [x] ?ls) =
      concat (map (split_on (\<lambda>c. c = LF \<or> c = NUL)) ?ls)" if "x = LF \<or> x = NUL" for x
    using that split_on_join [of "\<lambda>c. c = LF \<or> c = NUL" x ?ls] by simp
  then have "split_on (\<lambda>c. c = LF \<or> c = NUL) (join [LF] ?ls) =
      split_on (\<lambda>c. c = LF \<or> c = NUL) (join [NUL] ?ls)"
    by simp
  then show ?thesis
    using False heads by (simp add: lines_of_def trim_join)
qed

text \<open>
  C5.  For a list of lines that all match the pattern, \<open>parseOutput\<close> gives the same
  outcome (the same tuples in the same order) on the lines joined with a newline and on
  the lines joined with NUL.
\<close>

theorem parseOutput_separators:
  assumes "list_all (\<lambda>l. match_line l \<noteq> None) ls"
  shows "parseOutput (join [LF] ls) c st = parseOutput (join [NUL] ls) c st"
proof -
  have "lines_of (join [LF] ls) = lines_of (join [NUL] ls)"
    using assms by (rule lines_of_join)
  then show ?thesis
    by (simp add: parseOutput_def split: prod.splits bool.splits)
qed

theorem parseOutput_separators_witness:
  "list_all (\<lambda>l. match_line l \<noteq> None) [js ''aaa (1)   - ccc'', js ''bbb (2)   - xxx''] \<and>
   parseOutput (join [LF] [js ''aaa (1)   - ccc'', js ''bbb (2)   - xxx'']) None initial =
     parseOutput (join [NUL] [js ''aaa (1)   - ccc'', js ''bbb (2)   - xxx'']) None initial \<and>
   fst (parseOutput (join [NUL] [js ''aaa (1)   - ccc'', js ''bbb (2)   - xxx'']) None initial) =
     Inr [(js ''aaa'', js ''1'', js ''ccc''), (js ''bbb'', js ''2'', js ''xxx'')]"
proof -
  have a: "list_all (\<lambda>l. match_line l \<noteq> None) [js ''aaa (1)   - ccc'', js ''bbb (2)   - xxx'']"
    by code_simp
  have b: "fst (parseOutput (join [NUL] [js ''aaa (1)   - ccc'', js ''bbb (2)   - xxx'']) None initial) =
     Inr [(js ''aaa'', js ''1'', js ''ccc''), (js ''bbb'', js ''2'', js ''xxx'')]"
    by code_simp
  from parseOutput_separators [OF a, of None initial] a b show ?thesis by simp
qed

section \<open>The detail stage\<close>

lemma runSubprocess_never:
  assumes "\<forall>k. \<not> tok k"
    and "shell_parse_argv e command = ParseReturns True (Some argv)"
    and "subprocess_new e (length (spawned st)) argv = Spawned (CommReturns stdout stderr)"
  shows "runSubprocess e command (Some tok) st =
     (Inr (Some (List.map_filter tuple_of (lines_of stdout))),
      st\<lparr>checks := Suc (Suc (checks st + length (lines_of stdout))),
         spawned := spawned st @ [argv]\<rparr>)"
  using assms
  by (simp add: runSubprocess_def is_cancelled_never parseOutput_never)

text \<open>The same without a token: \<open>cancellable?.is_cancelled()\<close> is never true.\<close>

lemma parse_loop_absent:
  "parse_loop None lines results st = (Inr (results @ List.map_filter tuple_of lines), st)"
proof (induction lines arbitrary: results)
  case Nil
  then show ?case by (simp add: List.map_filter_simps)
next
  case (Cons line lines)
  then show ?case
    by (simp add: is_cancelled_def push_line_append List.map_filter_simps split: option.splits)
qed

lemma parseOutput_absent:
  "parseOutput output None st = (Inr (List.map_filter tuple_of (lines_of output)), st)"
  by (simp add: parseOutput_def is_cancelled_def parse_loop_absent)

lemma runSubprocess_absent:
  assumes "shell_parse_argv e command = ParseReturns True (Some argv)"
    and "subprocess_new e (length (spawned st)) argv = Spawned (CommReturns stdout stderr)"
  shows "runSubprocess e command None st =
     (Inr (Some (List.map_filter tuple_of (lines_of stdout))),
      st\<lparr>spawned := spawned st @ [argv]\<rparr>)"
  using assms
  by (simp add: runSubprocess_def is_cancelled_def parseOutput_absent)

text \<open>
  C7.  When the command line of \<open>getPageInfo\<close> is tokenized, the child runs, its output
  parses to a tuple list that starts with \<open>(pageName, section, description)\<close> and the
  token is not cancelled (there is no token, or the token is never set),
  \<open>getPageInfo\<close> returns the pair of the title \<open>pageName (section)\<close> and \<open>description\<close>.
  For the identifier \<open>1|ls\<close> and the output \<open>ls (1) - list directory contents\<close> this is
  \<open>(ls (1), list directory contents)\<close>, with or without a token.
\<close>

theorem getPageInfo_first_tuple:
  assumes "\<forall>tok k. c = Some tok \<longrightarrow> \<not> tok k"
    and "shell_parse_argv e (whatis_command identifier) = ParseReturns True (Some argv)"
    and "subprocess_new e (length (spawned st)) argv = Spawned (CommReturns stdout stderr)"
    and "List.map_filter tuple_of (lines_of stdout) = (pageName, section, description) # rest"
  shows "fst (getPageInfo e identifier c st) =
     Inr (Some (pageName @ js '' ('' @ section @ js '')'', description))"
proof (cases c)
  case None
  have "runSubprocess e (whatis_command identifier) None st =
     (Inr (Some ((pageName, section, description) # rest)), st\<lparr>spawned := spawned st @ [argv]\<rparr>)"
    using runSubprocess_absent [OF assms(2,3)] assms(4) by simp
  with None show ?thesis
    by (simp add: getPageInfo_def is_cancelled_def title_of_def js_def SPACE_def LPAREN_def
        RPAREN_def)
next
  case (Some tok)
  with assms(1) have never: "\<forall>k. \<not> tok k" by simp
  have "runSubprocess e (whatis_command identifier) (Some tok) (st\<lparr>checks := Suc (checks st)\<rparr>) =
     (Inr (Some ((pageName, section, description) # rest)),
      st\<lparr>checks := Suc (Suc (Suc (checks st + length (lines_of stdout)))),
         spawned := spawned st @ [argv]\<rparr>)"
    using runSubprocess_never [of tok e "whatis_command identifier" argv
        "st\<lparr>checks := Suc (checks st)\<rparr>" stdout stderr] never assms(2,3,4)
    by simp
  with Some never show ?thesis
    by (simp add: getPageInfo_def is_cancelled_never title_of_def js_def SPACE_def LPAREN_def
        RPAREN_def)
qed

theorem getPageInfo_first_tuple_witness:
  "shell_parse_argv (answering (js ''ls (1) - list directory contents'')) (whatis_command (js ''1|ls''))
     = ParseReturns True (Some [js ''whatis'', js ''-l'', js ''-s'', js ''1'', js ''ls'']) \<and>
   List.map_filter tuple_of (lines_of (js ''ls (1) - list directory contents''))
     = [(js ''ls'', js ''1'', js ''list directory contents'')] \<and>
   fst (getPageInfo (answering (js ''ls (1) - list directory contents'')) (js ''1|ls'') None initial)
     = Inr (Some (js ''ls (1)'', js ''list directory contents'')) \<and>
   fst (getPageInfo (answering (js ''ls (1) - list directory contents'')) (js ''1|ls'')
          (Some (\<lambda>k. False)) initial)
     = Inr (Some (js ''ls (1)'', js ''list directory contents''))"
proof -
  let ?out = "js ''ls (1) - list directory contents''"
  let ?argv = "[js ''whatis'', js ''-l'', js ''-s'', js ''1'', js ''ls'']"
  have a: "\<forall>tok k. (None :: cancellable option) = Some tok \<longrightarrow> \<not> tok k" by simp
  have a': "\<forall>tok k. Some (\<lambda>k::nat. False) = Some tok \<longrightarrow> \<not> tok k" by simp
  have b: "shell_parse_argv (answering ?out) (whatis_command (js ''1|ls''))
     = ParseReturns True (Some ?argv)"
    by code_simp
  have c: "subprocess_new (answering ?out) (length (spawned initial)) ?argv
     = Spawned (CommReturns ?out [])"
    by (simp add: answering_def)
  have d: "List.map_filter tuple_of (lines_of ?out)
     = (js ''ls'', js ''1'', js ''list directory contents'') # []"
    by code_simp
  have t: "js ''ls'' @ js '' ('' @ js ''1'' @ js '')'' = js ''ls (1)''"
    by code_simp
  from getPageInfo_first_tuple [OF a b c d] getPageInfo_first_tuple [OF a' b c d] b d t
  show ?thesis by simp
qed

section \<open>Exceptions that leave the engine\<close>

text \<open>
  C1.  \<open>runSubprocess\<close> is documented never to throw, but \<open>GLib.shell_parse_argv\<close> and
  \<open>Gio.Subprocess.new\<close> stand before its \<open>try\<close> block.  Where the program cannot be
  started the \<open>GLib.SpawnError\<close> leaves \<open>runSubprocess\<close>, \<open>getPageInfo\<close> and
  \<open>searchManPages\<close>; for the search term \<open>it's\<close> the \<open>GLib.ShellError\<close> of the tokenizer
  does.
\<close>

theorem runSubprocess_throws:
  "fst (runSubprocess no_such_program (js ''whatis -l -s 1 ls'') (Some (\<lambda>k. False)) initial)
     = Inl SpawnError \<and>
   fst (getPageInfo no_such_program (js ''1|ls'') (Some (\<lambda>k. False)) initial) = Inl SpawnError \<and>
   fst (searchManPages no_such_program [js ''ls''] (Some (\<lambda>k. False)) initial) = Inl SpawnError \<and>
   fst (runSubprocess (answering []) (js ''apropos --and it'' @ [QUOTE] @ js ''s'')
          (Some (\<lambda>k. False)) initial) = Inl ShellError \<and>
   fst (searchManPages (answering []) [js ''it'' @ [QUOTE] @ js ''s''] (Some (\<lambda>k. False)) initial)
     = Inl ShellError"
  by code_simp

section \<open>Cancellation\<close>

lemma is_cancelled_Some:
  "is_cancelled (Some tok) st = (tok (checks st), st\<lparr>checks := Suc (checks st)\<rparr>)"
  by (simp add: is_cancelled_def)

lemma observed_iff:
  "observed tok st st' \<longleftrightarrow> (\<exists>i. checks st \<le> i \<and> i < checks st' \<and> tok i)"
  by (auto simp: observed_def list_ex_iff)

lemma observed_first:
  "tok (checks st) \<Longrightarrow> checks st < checks st' \<Longrightarrow> observed tok st st'"
  by (auto simp: observed_iff)

lemma observed_split:
  "\<not> tok (checks st) \<Longrightarrow>
   observed tok st st' \<longleftrightarrow> observed tok (st\<lparr>checks := Suc (checks st)\<rparr>) st'"
proof -
  assume a: "\<not> tok (checks st)"
  have "(checks st \<le> i \<and> i < checks st' \<and> tok i) =
      (Suc (checks st) \<le> i \<and> i < checks st' \<and> tok i)" for i
    using a by (cases "i = checks st") auto
  then show ?thesis
    by (simp add: observed_iff)
qed

lemma observed_spawned [simp]:
  "observed tok (st\<lparr>spawned := x\<rparr>) st' = observed tok st st'"
  "observed tok st (st'\<lparr>spawned := x\<rparr>) = observed tok st st'"
  by (simp_all add: observed_iff)

lemma observed_same [simp]: "\<not> observed tok st st"
  by (simp add: observed_iff)

lemma observed_trans:
  "checks st \<le> checks st1 \<Longrightarrow> checks st1 \<le> checks st2 \<Longrightarrow>
   observed tok st st2 \<longleftrightarrow> observed tok st st1 \<or> observed tok st1 st2"
  unfolding observed_iff by (metis le_trans less_le_trans not_le)

lemma parse_loop_observed:
  "parse_loop (Some tok) lines results st = (r, st') \<Longrightarrow>
   checks st \<le> checks st' \<and> (observed tok st st' \<longrightarrow> r = Inl CancelledError)"
proof (induction lines arbitrary: results st)
  case Nil
  then show ?case by auto
next
  case (Cons line lines)
  show ?case
  proof (cases "tok (checks st)")
    case True
    with Cons.prems show ?thesis
      by (auto simp: is_cancelled_Some)
  next
    case False
    with Cons.prems have
      "parse_loop (Some tok) lines (push_line results line) (st\<lparr>checks := Suc (checks st)\<rparr>) = (r, st')"
      by (simp add: is_cancelled_Some)
    from Cons.IH [OF this] False show ?thesis
      by (auto simp: observed_split)
  qed
qed

lemma parseOutput_observed:
  assumes "parseOutput output (Some tok) st = (r, st')"
  shows "checks st \<le> checks st' \<and> (observed tok st st' \<longrightarrow> r = Inl CancelledError)"
proof (cases "tok (checks st)")
  case True
  with assms show ?thesis
    by (auto simp: parseOutput_def is_cancelled_Some)
next
  case False
  with assms have
    "parse_loop (Some tok) (lines_of output) [] (st\<lparr>checks := Suc (checks st)\<rparr>) = (r, st')"
    by (simp add: parseOutput_def is_cancelled_Some)
  from parse_loop_observed [OF this] False show ?thesis
    by (auto simp: observed_split)
qed

lemma runSubprocess_observed:
  assumes "runSubprocess e command (Some tok) st = (r, st')"
  shows "checks st < checks st' \<and> (observed tok st st' \<longrightarrow> r = Inr None)"
proof (cases "tok (checks st)")
  case True
  with assms show ?thesis
    by (auto simp: runSubprocess_def is_cancelled_Some)
next
  case False
  let ?st1 = "st\<lparr>checks := Suc (checks st)\<rparr>"
  have "checks ?st1 \<le> checks st' \<and> (observed tok ?st1 st' \<longrightarrow> r = Inr None)"
  proof (cases "shell_parse_argv e command")
    case ParseThrows
    with assms False show ?thesis
      by (auto simp: runSubprocess_def is_cancelled_Some)
  next
    case (ParseReturns success argv')
    show ?thesis
    proof (cases "success \<and> argv' \<noteq> None")
      case False
      with assms \<open>\<not> tok (checks st)\<close> ParseReturns show ?thesis
        by (auto simp: runSubprocess_def is_cancelled_Some split: option.splits)
    next
      case True
      then obtain argv where argv: "argv' = Some argv" "success" by auto
      let ?st2 = "?st1\<lparr>spawned := spawned ?st1 @ [argv]\<rparr>"
      show ?thesis
      proof (cases "subprocess_new e (length (spawned ?st1)) argv")
        case SpawnThrows
        with assms \<open>\<not> tok (checks st)\<close> ParseReturns argv show ?thesis
          by (auto simp: runSubprocess_def is_cancelled_Some)
      next
        case (Spawned comm)
        show ?thesis
        proof (cases comm)
          case (CommReturns stdout stderr)
          obtain r3 st3 where p: "parseOutput stdout (Some tok) ?st2 = (r3, st3)"
            by (cases "parseOutput stdout (Some tok) ?st2")
          from parseOutput_observed [OF p]
          have "checks ?st1 \<le> checks st3" "observed tok ?st1 st3 \<longrightarrow> r3 = Inl CancelledError"
            by simp_all
          moreover have "st' = st3" "r3 = Inl CancelledError \<longrightarrow> r = Inr None"
            using assms \<open>\<not> tok (checks st)\<close> ParseReturns argv Spawned CommReturns p
            by (auto simp: runSubprocess_def is_cancelled_Some split: sum.splits)
          ultimately show ?thesis by simp
        next
          case CommRejectsCancelled
          with assms \<open>\<not> tok (checks st)\<close> ParseReturns argv Spawned show ?thesis
            by (auto simp: runSubprocess_def is_cancelled_Some)
        next
          case CommRejectsOther
          with assms \<open>\<not> tok (checks st)\<close> ParseReturns argv Spawned show ?thesis
            by (auto simp: runSubprocess_def is_cancelled_Some)
        qed
      qed
    qed
  qed
  with False show ?thesis
    by (auto simp: observed_split)
qed

lemma observed_Suc:
  "checks st \<le> n \<Longrightarrow>
   observed tok st (st'\<lparr>checks := Suc n\<rparr>) \<longleftrightarrow> observed tok st (st'\<lparr>checks := n\<rparr>) \<or> tok n"
  by (auto simp: observed_iff less_Suc_eq)

lemma observed_checks_id [simp]:
  "observed tok st (st'\<lparr>checks := checks st'\<rparr>) = observed tok st st'"
  by (simp add: observed_iff)

lemma searchManPages_observed:
  assumes "searchManPages e terms (Some tok) st = (r, st')"
  shows "checks st < checks st' \<and> (observed tok st st' \<longrightarrow> r = Inr [])"
proof (cases "tok (checks st)")
  case True
  with assms show ?thesis
    by (auto simp: searchManPages_def is_cancelled_Some)
next
  case False
  let ?st1 = "st\<lparr>checks := Suc (checks st)\<rparr>"
  obtain r2 st2 where run: "runSubprocess e (apropos_command terms) (Some tok) ?st1 = (r2, st2)"
    by (cases "runSubprocess e (apropos_command terms) (Some tok) ?st1")
  from runSubprocess_observed [OF run]
  have le: "checks ?st1 < checks st2" and obs: "observed tok ?st1 st2 \<longrightarrow> r2 = Inr None"
    by simp_all
  have "checks ?st1 \<le> checks st' \<and> (observed tok ?st1 st' \<longrightarrow> r = Inr [])"
  proof (cases "\<exists>t ts. r2 = Inr (Some (t # ts))")
    case False
    then have "(\<exists>err. r2 = Inl err) \<or> r2 = Inr None \<or> r2 = Inr (Some [])"
      by (metis list.exhaust option.exhaust sum.exhaust)
    then have "st' = st2 \<and> (r2 = Inr None \<longrightarrow> r = Inr [])"
      using assms \<open>\<not> tok (checks st)\<close> run
      by (auto simp: searchManPages_def is_cancelled_Some)
    with le obs show ?thesis by auto
  next
    case True
    then obtain t ts where r2: "r2 = Inr (Some (t # ts))" by auto
    with obs have quiet: "\<not> observed tok ?st1 st2" by auto
    have le': "checks ?st1 \<le> checks st2" using le by simp
    show ?thesis
      using assms \<open>\<not> tok (checks st)\<close> run r2 quiet le'
      by (auto simp: searchManPages_def is_cancelled_Some observed_Suc split: if_splits bool.splits)
  qed
  with False show ?thesis
    by (auto simp: observed_split)
qed

lemma getPageInfo_observed:
  assumes "getPageInfo e identifier (Some tok) st = (r, st')"
  shows "checks st < checks st' \<and> (observed tok st st' \<longrightarrow> r = Inr None)"
proof (cases "tok (checks st)")
  case True
  with assms show ?thesis
    by (auto simp: getPageInfo_def is_cancelled_Some)
next
  case False
  let ?st1 = "st\<lparr>checks := Suc (checks st)\<rparr>"
  obtain r2 st2 where run: "runSubprocess e (whatis_command identifier) (Some tok) ?st1 = (r2, st2)"
    by (cases "runSubprocess e (whatis_command identifier) (Some tok) ?st1")
  from runSubprocess_observed [OF run]
  have le: "checks ?st1 < checks st2" and obs: "observed tok ?st1 st2 \<longrightarrow> r2 = Inr None"
    by simp_all
  have "checks ?st1 \<le> checks st' \<and> (observed tok ?st1 st' \<longrightarrow> r = Inr None)"
  proof (cases "\<exists>t ts. r2 = Inr (Some (t # ts))")
    case False
    then have "(\<exists>err. r2 = Inl err) \<or> r2 = Inr None \<or> r2 = Inr (Some [])"
      by (metis list.exhaust option.exhaust sum.exhaust)
    then have "st' = st2 \<and> (r2 = Inr None \<longrightarrow> r = Inr None)"
      using assms \<open>\<not> tok (checks st)\<close> run
      by (auto simp: getPageInfo_def is_cancelled_Some)
    with le obs show ?thesis by auto
  next
    case True
    then obtain t ts where r2: "r2 = Inr (Some (t # ts))" by auto
    with obs have quiet: "\<not> observed tok ?st1 st2" by auto
    have le': "checks ?st1 \<le> checks st2" using le by simp
    show ?thesis
      using assms \<open>\<not> tok (checks st)\<close> run r2 quiet le'
      by (auto simp: getPageInfo_def is_cancelled_Some observed_Suc split: if_splits bool.splits)
  qed
  with False show ?thesis
    by (auto simp: observed_split)
qed

text \<open>
  C4.  A call of \<open>searchManPages\<close> made with the token already set returns the empty
  list, and so does a call during which any \<open>is_cancelled()\<close> check, the last one before
  the \<open>return\<close> included, finds the token set; \<open>getPageInfo\<close> returns \<open>null\<close> in the same
  two situations.  Neither returns data nor throws then.
\<close>

theorem cancellation_observed:
  "(tok (checks st) \<longrightarrow> fst (searchManPages e terms (Some tok) st) = Inr []) \<and>
   (observed tok st (snd (searchManPages e terms (Some tok) st)) \<longrightarrow>
      fst (searchManPages e terms (Some tok) st) = Inr []) \<and>
   (tok (checks st) \<longrightarrow> fst (getPageInfo e identifier (Some tok) st) = Inr None) \<and>
   (observed tok st (snd (getPageInfo e identifier (Some tok) st)) \<longrightarrow>
      fst (getPageInfo e identifier (Some tok) st) = Inr None)"
proof -
  obtain r st' where s: "searchManPages e terms (Some tok) st = (r, st')"
    by (cases "searchManPages e terms (Some tok) st")
  obtain q st'' where g: "getPageInfo e identifier (Some tok) st = (q, st'')"
    by (cases "getPageInfo e identifier (Some tok) st")
  from searchManPages_observed [OF s] getPageInfo_observed [OF g] s g
  show ?thesis
    by (auto dest: observed_first)
qed

theorem cancellation_observed_witness:
  "observed (\<lambda>k. 5 \<le> k) initial
     (snd (searchManPages (answering (js ''ls (1) - list directory contents'')) [js ''ls'']
        (Some (\<lambda>k. 5 \<le> k)) initial)) \<and>
   checks (snd (searchManPages (answering (js ''ls (1) - list directory contents'')) [js ''ls'']
        (Some (\<lambda>k. 5 \<le> k)) initial)) = 6 \<and>
   fst (searchManPages (answering (js ''ls (1) - list directory contents'')) [js ''ls'']
        (Some (\<lambda>k. 5 \<le> k)) initial) = Inr [] \<and>
   fst (searchManPages (answering (js ''ls (1) - list directory contents'')) [js ''ls'']
        (Some (\<lambda>k. False)) initial) = Inr [js ''1|ls''] \<and>
   observed (\<lambda>k. 5 \<le> k) initial
     (snd (getPageInfo (answering (js ''ls (1) - list directory contents'')) (js ''1|ls'')
        (Some (\<lambda>k. 5 \<le> k)) initial)) \<and>
   checks (snd (getPageInfo (answering (js ''ls (1) - list directory contents'')) (js ''1|ls'')
        (Some (\<lambda>k. 5 \<le> k)) initial)) = 6 \<and>
   fst (getPageInfo (answering (js ''ls (1) - list directory contents'')) (js ''1|ls'')
        (Some (\<lambda>k. 5 \<le> k)) initial) = Inr None \<and>
   fst (searchManPages (answering (js ''ls (1) - list directory contents'')) [js ''ls'']
        (Some (\<lambda>k. True)) initial) = Inr []"
proof -
  let ?e = "answering (js ''ls (1) - list directory contents'')"
  let ?tok = "\<lambda>k::nat. 5 \<le> k"
  have a: "observed ?tok initial (snd (searchManPages ?e [js ''ls''] (Some ?tok) initial))"
    by code_simp
  have b: "checks (snd (searchManPages ?e [js ''ls''] (Some ?tok) initial)) = 6"
    by code_simp
  have c: "fst (searchManPages ?e [js ''ls''] (Some (\<lambda>k. False)) initial) = Inr [js ''1|ls'']"
    by code_simp
  have d: "observed ?tok initial (snd (getPageInfo ?e (js ''1|ls'') (Some ?tok) initial))"
    by code_simp
  have f: "checks (snd (getPageInfo ?e (js ''1|ls'') (Some ?tok) initial)) = 6"
    by code_simp
  from cancellation_observed [of ?tok initial ?e "[js ''ls'']" "js ''1|ls''"]
    cancellation_observed [of "\<lambda>k. True" initial ?e "[js ''ls'']" "js ''1|ls''"]
    a b c d f
  show ?thesis by simp
qed

section \<open>The minimum query length\<close>

lemma runSubprocess_spawns:
  assumes "\<forall>k. \<not> tok k"
    and "shell_parse_argv e command = ParseReturns True (Some argv)"
  shows "spawned (snd (runSubprocess e command (Some tok) st)) = spawned st @ [argv]"
proof (cases "subprocess_new e (length (spawned st)) argv")
  case SpawnThrows
  with assms show ?thesis
    by (simp add: runSubprocess_def is_cancelled_never)
next
  case (Spawned comm)
  with assms show ?thesis
    by (cases comm) (simp_all add: runSubprocess_def is_cancelled_never parseOutput_never)
qed

lemma searchManPages_spawns:
  assumes "\<forall>k. \<not> tok k"
    and "shell_parse_argv e (apropos_command terms) = ParseReturns True (Some argv)"
  shows "spawned (snd (searchManPages e terms (Some tok) st)) = spawned st @ [argv]"
proof -
  let ?st1 = "st\<lparr>checks := Suc (checks st)\<rparr>"
  obtain r2 st2 where run: "runSubprocess e (apropos_command terms) (Some tok) ?st1 = (r2, st2)"
    by (cases "runSubprocess e (apropos_command terms) (Some tok) ?st1")
  have "spawned st2 = spawned st @ [argv]"
    using runSubprocess_spawns [OF assms, of ?st1] run by simp
  then show ?thesis
    using assms(1) run
    by (simp add: searchManPages_def is_cancelled_never split: sum.splits option.splits)
qed

text \<open>
  C9.  With no term, or a first term of fewer than two code units,
  \<open>getInitialResultSet\<close> returns the empty list and starts no process.  Only the first
  term is measured: with a first term of two or more code units and a token that is
  never cancelled, the \<open>apropos\<close> command is started whatever the other terms are.
\<close>

theorem getInitialResultSet_minimum_length:
  "(terms = [] \<or> length (hd terms) < 2 \<longrightarrow>
      fst (getInitialResultSet e terms tok st) = Inr [] \<and>
      spawned (snd (getInitialResultSet e terms tok st)) = spawned st) \<and>
   (2 \<le> length t \<and> (\<forall>k. \<not> tok k) \<and>
    shell_parse_argv e (apropos_command (t # ts)) = ParseReturns True (Some argv) \<longrightarrow>
      spawned (snd (getInitialResultSet e (t # ts) tok st)) = spawned st @ [argv])"
proof (intro conjI impI)
  assume "terms = [] \<or> length (hd terms) < 2"
  then have short: "first_term_length terms < 2"
    by (cases terms) (simp_all add: first_term_length_def)
  then show "fst (getInitialResultSet e terms tok st) = Inr []"
    by (simp add: getInitialResultSet_def is_cancelled_Some split: bool.splits)
  from short show "spawned (snd (getInitialResultSet e terms tok st)) = spawned st"
    by (simp add: getInitialResultSet_def is_cancelled_Some split: bool.splits)
next
  assume a: "2 \<le> length t \<and> (\<forall>k. \<not> tok k) \<and>
    shell_parse_argv e (apropos_command (t # ts)) = ParseReturns True (Some argv)"
  let ?st1 = "st\<lparr>checks := Suc (checks st)\<rparr>"
  obtain r2 st2 where s: "searchManPages e (t # ts) (Some tok) ?st1 = (r2, st2)"
    by (cases "searchManPages e (t # ts) (Some tok) ?st1")
  have "spawned st2 = spawned st @ [argv]"
    using searchManPages_spawns [of tok e "t # ts" argv ?st1] a s by simp
  then show "spawned (snd (getInitialResultSet e (t # ts) tok st)) = spawned st @ [argv]"
    using a s
    by (simp add: getInitialResultSet_def is_cancelled_never first_term_length_def split: sum.splits)
qed

theorem getInitialResultSet_minimum_length_witness:
  "length (hd [js ''l'', js ''list'']) < 2 \<and>
   fst (getInitialResultSet (answering (js ''ls (1) - list directory contents''))
     [js ''l'', js ''list''] (\<lambda>k. False) initial) = Inr [] \<and>
   spawned (snd (getInitialResultSet (answering (js ''ls (1) - list directory contents''))
     [js ''l'', js ''list''] (\<lambda>k. False) initial)) = [] \<and>
   2 \<le> length (js ''ls'') \<and> length (js ''d'') < 2 \<and>
   spawned (snd (getInitialResultSet (answering (js ''ls (1) - list directory contents''))
     [js ''ls'', js ''d''] (\<lambda>k. False) initial)) = [[js ''apropos'', js ''--and'', js ''ls'', js ''d'']]"
proof -
  let ?e = "answering (js ''ls (1) - list directory contents'')"
  let ?argv = "[js ''apropos'', js ''--and'', js ''ls'', js ''d'']"
  have a: "length (hd [js ''l'', js ''list'']) < 2" by code_simp
  have b: "2 \<le> length (js ''ls'')" by code_simp
  have c: "length (js ''d'') < 2" by code_simp
  have d: "shell_parse_argv ?e (apropos_command (js ''ls'' # [js ''d''])) = ParseReturns True (Some ?argv)"
    by code_simp
  have i: "spawned initial = []" by (simp add: initial_def)
  from getInitialResultSet_minimum_length [of "[js ''l'', js ''list'']" ?e "\<lambda>k. False" initial]
    getInitialResultSet_minimum_length [where e = ?e and tok = "\<lambda>k. False" and st = initial
      and t = "js ''ls''" and ts = "[js ''d'']" and argv = ?argv]
    a b c d i
  show ?thesis by simp
qed

section \<open>Result metadata\<close>

lemma metas_for_append:
  "metas_for e (xs @ ys) tok acc st =
     (case metas_for e xs tok acc st of
        (Returned r, st') \<Rightarrow> (Returned r, st')
      | (Completed acc', st') \<Rightarrow> metas_for e ys tok acc' st')"
  by (induction xs arbitrary: acc st)
    (auto split: prod.splits bool.splits sum.splits option.splits)

lemma metas_for_Completed:
  "metas_for e ids tok acc st = (Completed acc', st') \<Longrightarrow>
   map meta_id acc' = map meta_id acc @ ids"
  by (induction ids arbitrary: acc st)
    (auto split: prod.splits bool.splits sum.splits option.splits)

lemma metas_for_Returned:
  "metas_for e ids tok acc st = (Returned (Inr r), st') \<Longrightarrow> r = []"
  by (induction ids arbitrary: acc st)
    (auto split: prod.splits bool.splits sum.splits option.splits)

lemma getResultMetas_ids:
  assumes "fst (getResultMetas e identifiers tok st) = Inr metas" and "metas \<noteq> []"
  shows "map meta_id metas = identifiers"
proof -
  have entry: "\<not> tok (checks st)"
    using assms by (auto simp: getResultMetas_def is_cancelled_Some)
  let ?st1 = "st\<lparr>checks := Suc (checks st)\<rparr>"
  obtain x st2 where loop: "metas_for e identifiers tok [] ?st1 = (x, st2)"
    by (cases "metas_for e identifiers tok [] ?st1")
  show ?thesis
  proof (cases x)
    case (Returned r)
    with assms entry loop have "r = Inr metas"
      by (simp add: getResultMetas_def is_cancelled_Some)
    with loop Returned assms(2) metas_for_Returned show ?thesis
      by blast
  next
    case (Completed built)
    with assms entry loop have "built = metas"
      by (auto simp: getResultMetas_def is_cancelled_Some split: bool.splits)
    with loop Completed metas_for_Completed [of e identifiers tok "[]" ?st1 metas st2]
    show ?thesis by simp
  qed
qed

lemma getResultMetas_null:
  assumes "is_cancelled (Some tok) st = (False, st0)"
    and "metas_for e earlier tok [] st0 = (Completed built, st1)"
    and "fst (is_cancelled (Some tok) st1) \<or>
         fst (getPageInfo e identifier (Some tok) (snd (is_cancelled (Some tok) st1))) = Inr None"
  shows "fst (getResultMetas e (earlier @ identifier # later) tok st) = Inr []"
proof -
  have "fst (metas_for e (identifier # later) tok built st1) = Returned (Inr [])"
    using assms(3)
    by (auto simp: is_cancelled_Some split: prod.splits bool.splits sum.splits option.splits)
  then have "fst (metas_for e (earlier @ identifier # later) tok [] st0) = Returned (Inr [])"
    using assms(2) by (simp add: metas_for_append)
  then show ?thesis
    using assms(1) by (auto simp: getResultMetas_def split: prod.splits loop_exit.splits)
qed

text \<open>
  C10.  \<open>getResultMetas\<close> is all or nothing.  A result that is not empty has exactly
  one \<open>ResultMeta\<close> for each input identifier, in the order of the input, with that
  identifier as its \<open>id\<close>.  And when the loop, having built the metadata of the earlier
  identifiers, finds the token cancelled or gets \<open>null\<close> from \<open>getPageInfo\<close> for the next
  identifier, the call returns the empty array: what was built is dropped.
\<close>

theorem getResultMetas_all_or_nothing:
  "(fst (getResultMetas e identifiers tok st) = Inr metas \<and> metas \<noteq> [] \<longrightarrow>
      map meta_id metas = identifiers) \<and>
   (is_cancelled (Some tok) st = (False, st0) \<and>
    metas_for e earlier tok [] st0 = (Completed built, st1) \<and>
    (fst (is_cancelled (Some tok) st1) \<or>
     fst (getPageInfo e identifier (Some tok) (snd (is_cancelled (Some tok) st1))) = Inr None) \<longrightarrow>
      fst (getResultMetas e (earlier @ identifier # later) tok st) = Inr [])"
proof (intro conjI impI)
  assume "fst (getResultMetas e identifiers tok st) = Inr metas \<and> metas \<noteq> []"
  then show "map meta_id metas = identifiers"
    using getResultMetas_ids by blast
next
  assume "is_cancelled (Some tok) st = (False, st0) \<and>
    metas_for e earlier tok [] st0 = (Completed built, st1) \<and>
    (fst (is_cancelled (Some tok) st1) \<or>
     fst (getPageInfo e identifier (Some tok) (snd (is_cancelled (Some tok) st1))) = Inr None)"
  then show "fst (getResultMetas e (earlier @ identifier # later) tok st) = Inr []"
    using getResultMetas_null by blast
qed

theorem getResultMetas_all_or_nothing_witness:
  "fst (getResultMetas
      (answering_in_turn [js ''ls (1) - list directory contents'', js ''printf (1) - format and print data''])
      [js ''1|ls'', js ''1|printf''] (\<lambda>k. False) initial) =
     Inr [\<lparr>meta_id = js ''1|ls'', meta_name = js ''ls (1)'',
            meta_description = js ''list directory contents''\<rparr>,
          \<lparr>meta_id = js ''1|printf'', meta_name = js ''printf (1)'',
            meta_description = js ''format and print data''\<rparr>] \<and>
   fst (is_cancelled (Some (\<lambda>k. False)) initial) = False \<and>
   fst (metas_for (answering_in_turn [js ''ls (1) - list directory contents'', []]) [js ''1|ls'']
      (\<lambda>k. False) [] (snd (is_cancelled (Some (\<lambda>k. False)) initial))) =
     Completed [\<lparr>meta_id = js ''1|ls'', meta_name = js ''ls (1)'',
       meta_description = js ''list directory contents''\<rparr>] \<and>
   fst (getPageInfo (answering_in_turn [js ''ls (1) - list directory contents'', []])
      (js ''225|nonexistent'') (Some (\<lambda>k. False))
      (snd (is_cancelled (Some (\<lambda>k. False))
        (snd (metas_for (answering_in_turn [js ''ls (1) - list directory contents'', []]) [js ''1|ls'']
          (\<lambda>k. False) [] (snd (is_cancelled (Some (\<lambda>k. False)) initial))))))) = Inr None \<and>
   fst (getResultMetas (answering_in_turn [js ''ls (1) - list directory contents'', []])
      ([js ''1|ls''] @ js ''225|nonexistent'' # []) (\<lambda>k. False) initial) = Inr []"
proof -
  let ?tok = "\<lambda>k::nat. False"
  let ?e1 = "answering_in_turn
    [js ''ls (1) - list directory contents'', js ''printf (1) - format and print data'']"
  let ?e2 = "answering_in_turn [js ''ls (1) - list directory contents'', []]"
  let ?ls = "\<lparr>meta_id = js ''1|ls'', meta_name = js ''ls (1)'',
    meta_description = js ''list directory contents''\<rparr>"
  let ?printf = "\<lparr>meta_id = js ''1|printf'', meta_name = js ''printf (1)'',
    meta_description = js ''format and print data''\<rparr>"
  let ?st0 = "snd (is_cancelled (Some ?tok) initial)"
  let ?st1 = "snd (metas_for ?e2 [js ''1|ls''] ?tok [] ?st0)"
  have a: "fst (getResultMetas ?e1 [js ''1|ls'', js ''1|printf''] ?tok initial) = Inr [?ls, ?printf]"
    by code_simp
  have b: "fst (is_cancelled (Some ?tok) initial) = False"
    by (simp add: is_cancelled_def)
  have c: "fst (metas_for ?e2 [js ''1|ls''] ?tok [] ?st0) = Completed [?ls]"
    by code_simp
  have d: "fst (getPageInfo ?e2 (js ''225|nonexistent'') (Some ?tok)
      (snd (is_cancelled (Some ?tok) ?st1))) = Inr None"
    by code_simp
  have b': "is_cancelled (Some ?tok) initial = (False, ?st0)"
    using b by (simp add: prod_eq_iff)
  have c': "metas_for ?e2 [js ''1|ls''] ?tok [] ?st0 = (Completed [?ls], ?st1)"
    using c by (simp add: prod_eq_iff)
  from getResultMetas_all_or_nothing [where e = ?e2 and tok = ?tok and st = initial
      and ?st0.0 = ?st0 and ?st1.0 = ?st1 and built = "[?ls]" and earlier = "[js ''1|ls'']"
      and ?identifier = "js ''225|nonexistent''" and later = "[]"] b' c' d
  have "fst (getResultMetas ?e2 ([js ''1|ls''] @ js ''225|nonexistent'' # []) ?tok initial) = Inr []"
    by blast
  with a b c d show ?thesis by simp
qed

end
